theory Spec2Isabelle
  imports Main "HOL-Library.AList"
begin

section \<open>Data model\<close>

text \<open>
  The records follow the interfaces of \<^verbatim>\<open>storage/file-index.ts\<close> and of the remote delta
  detector service. Field names carry a prefix because several interfaces share the names
  \<^verbatim>\<open>path\<close> and \<^verbatim>\<open>mtime\<close>. Times and sizes are integers (milliseconds, bytes).
  A directory \<^verbatim>\<open>StatModel\<close> has no \<^verbatim>\<open>size\<close> field in the source; every read of it in
  the modelled code is guarded by \<^verbatim>\<open>isDir\<close>, so the field is present here and unused
  for directories.
\<close>

record StatModel =
  st_path :: string
  st_basename :: string
  st_isDir :: bool
  st_isDeleted :: bool
  st_mtime :: int
  st_size :: int

record FileIndexEntry =
  fe_path :: string
  fe_basename :: string
  fe_isDir :: bool
  fe_mtime :: int
  fe_size :: int
  fe_etag :: "string option"
  fe_contentHash :: "string option"
  fe_lastSynced :: int
  fe_parentPath :: string

record DirMtimeEntry =
  dm_path :: string
  dm_mtime :: int
  dm_lastChecked :: int
  dm_childCount :: nat

datatype phase = scanning | comparing | syncing | updating

text \<open>The session id of the source is the string \<^verbatim>\<open>scan_<startTime>\<close>; it is kept as the
  number it is built from.\<close>

record SyncProgress =
  sp_sessionId :: int
  sp_startTime :: int
  sp_phase :: phase
  sp_processedCount :: nat
  sp_totalCount :: nat
  sp_currentPath :: string
  sp_pendingTasks :: "string list"
  sp_completedTasks :: "string list"
  sp_failedTasks :: "string list"

datatype changeType = Added | Modified | Deleted

record RemoteChange =
  ch_path :: string
  ch_type :: changeType
  ch_stat :: "StatModel option"

record DeltaDetectionResult =
  dr_changes :: "RemoteChange list"
  dr_needFullScan :: bool
  dr_scannedDirs :: nat
  dr_changedDirs :: nat

datatype depth = Depth0 | Depth1

text \<open>
  The persistent state of one namespace: the three key-value stores, each an association
  list in the iteration order of the backing store, together with the log of the PROPFIND
  requests issued so far (path and depth), which makes the remote traffic observable.
  Writing an existing key replaces its value in place and a new key goes to the end; the
  statements below that hold for every store do not depend on this order.
\<close>

record world =
  fileIndex :: "(string \<times> FileIndexEntry) list"
  dirMtimeStore :: "(string \<times> DirMtimeEntry) list"
  progressStore :: "SyncProgress option"
  requests :: "(string \<times> depth) list"

text \<open>
  The remote adapter: the answer of the server to a PROPFIND of a path at a depth.
  \<open>None\<close> stands for a request that throws.
\<close>

type_synonym remote = "string \<Rightarrow> depth \<Rightarrow> StatModel list option"

section \<open>Library functions the code calls\<close>

text \<open>
  \<^verbatim>\<open>localforage.iterate(iterator)\<close> calls the iterator on every key-value pair in turn and
  stops at the first call that returns something other than \<^verbatim>\<open>undefined\<close>, which is then
  the result of the iteration. \<open>None\<close> is \<^verbatim>\<open>undefined\<close>. The accumulator carries the
  variables the iterator closes over.
\<close>

fun lf_iterate ::
  "('v \<Rightarrow> 'k \<Rightarrow> 'a \<Rightarrow> 'r option \<times> 'a) \<Rightarrow> ('k \<times> 'v) list \<Rightarrow> 'a \<Rightarrow> 'r option \<times> 'a" where
  "lf_iterate iterator [] a = (None, a)"
| "lf_iterate iterator ((k, v) # kvs) a =
     (case iterator v k a of
        (Some r, a') \<Rightarrow> (Some r, a')
      | (None, a') \<Rightarrow> lf_iterate iterator kvs a')"

definition setItem :: "'k \<Rightarrow> 'v \<Rightarrow> ('k \<times> 'v) list \<Rightarrow> ('k \<times> 'v) list" where
  "setItem k v db = AList.update k v db"

definition removeItem :: "'k \<Rightarrow> ('k \<times> 'v) list \<Rightarrow> ('k \<times> 'v) list" where
  "removeItem k db = AList.delete k db"

definition getItem :: "'k \<Rightarrow> ('k \<times> 'v) list \<Rightarrow> 'v option" where
  "getItem k db = map_of db k"

text \<open>A JavaScript \<^verbatim>\<open>Map\<close> built from a list of pairs: a repeated key keeps the position
  of its first occurrence and the value of its last.\<close>

definition jsMap :: "('k \<times> 'v) list \<Rightarrow> ('k \<times> 'v) list" where
  "jsMap pairs = foldl (\<lambda>m (k, v). AList.update k v m) [] pairs"

text \<open>\<^verbatim>\<open>x || 0\<close> on a number.\<close>

definition orZero :: "int \<Rightarrow> int" where
  "orZero x = (if x \<noteq> 0 then x else 0)"

definition startsWith :: "string \<Rightarrow> string \<Rightarrow> bool" where
  "startsWith s p = (take (length p) s = p)"

definition endsWith :: "string \<Rightarrow> string \<Rightarrow> bool" where
  "endsWith s p = (length p \<le> length s \<and> drop (length s - length p) s = p)"

text \<open>\<^verbatim>\<open>s.replace(pat, '')\<close> with a string pattern removes the first occurrence.\<close>

fun removeFirst :: "string \<Rightarrow> string \<Rightarrow> string" where
  "removeFirst pat [] = []"
| "removeFirst pat (c # cs) =
     (if startsWith (c # cs) pat then drop (length pat) (c # cs)
      else c # removeFirst pat cs)"

text \<open>
  \<^verbatim>\<open>dirname\<close> of path-browserify: scanning from the end and never looking at index 0,
  trailing slashes are skipped, then the last path segment; the result is the path up to
  the slash found there.
\<close>

definition dirname :: "string \<Rightarrow> string" where
  "dirname p =
     (if p = [] then ''.''
      else
        let hasRoot = (hd p = CHR ''/'');
            r = dropWhile (\<lambda>c. c \<noteq> CHR ''/'') (dropWhile (\<lambda>c. c = CHR ''/'') (rev (tl p)));
            e = length r
        in if r = [] then (if hasRoot then ''/'' else ''.'')
           else if hasRoot \<and> e = 1 then ''//''
           else take e p)"

section \<open>The index store (storage/file-index.ts)\<close>

text \<open>
  \<^verbatim>\<open>chunkArray\<close> and the batch loops step by a positive size (5 and 1000 in the source);
  with size 0 the source loop would not end, and the model returns no chunk.
\<close>

function chunkArray :: "'a list \<Rightarrow> nat \<Rightarrow> 'a list list" where
  "chunkArray array sz =
     (if array = [] \<or> sz = 0 then []
      else take sz array # chunkArray (drop sz array) sz)"
  by pat_completeness auto
termination
  by (relation "measure (\<lambda>(array, sz). length array)") auto

declare chunkArray.simps [simp del]

definition BATCH_SIZE :: nat where
  "BATCH_SIZE = 1000"

text \<open>The writes of one batch are issued together (\<^verbatim>\<open>Promise.all\<close>); they are applied
  here in list order.\<close>

definition batchSet ::
  "FileIndexEntry list \<Rightarrow> (string \<times> FileIndexEntry) list \<Rightarrow> (string \<times> FileIndexEntry) list" where
  "batchSet entries db =
     foldl (\<lambda>db batch. foldl (\<lambda>db entry. setItem (fe_path entry) entry db) db batch)
       db (chunkArray entries BATCH_SIZE)"

definition batchDelete ::
  "string list \<Rightarrow> (string \<times> FileIndexEntry) list \<Rightarrow> (string \<times> FileIndexEntry) list" where
  "batchDelete paths db =
     foldl (\<lambda>db batch. foldl (\<lambda>db path. removeItem path db) db batch)
       db (chunkArray paths BATCH_SIZE)"

text \<open>\<^verbatim>\<open>getByParent\<close>: the iterator returns \<^verbatim>\<open>undefined\<close> on every path, so the whole store
  is walked; at most \<open>limit\<close> matching entries after the first \<open>offset\<close> are collected.\<close>

definition getByParent ::
  "string \<Rightarrow> nat \<Rightarrow> nat \<Rightarrow> (string \<times> FileIndexEntry) list \<Rightarrow> FileIndexEntry list" where
  "getByParent parentPath offset limit db =
     fst (snd (lf_iterate
       (\<lambda>value key (results, count, skipped).
          if fe_parentPath value = parentPath then
            (if skipped < offset then (None :: unit option, (results, count, Suc skipped))
             else if count < limit then (None, (results @ [value], Suc count, skipped))
             else (None, (results, count, skipped)))
          else (None, (results, count, skipped)))
       db ([], 0 :: nat, 0 :: nat)))"

definition count :: "(string \<times> FileIndexEntry) list \<Rightarrow> nat" where
  "count db = length db"

definition getAllDirs :: "(string \<times> FileIndexEntry) list \<Rightarrow> string list" where
  "getAllDirs db =
     snd (lf_iterate
       (\<lambda>value key dirs.
          if fe_isDir value then (None :: unit option, dirs @ [fe_path value])
          else (None, dirs))
       db [])"

definition getAll :: "(string \<times> DirMtimeEntry) list \<Rightarrow> (string \<times> DirMtimeEntry) list" where
  "getAll db =
     snd (lf_iterate
       (\<lambda>value key result. (None :: unit option, AList.update key value result))
       db [])"

definition dirBatchSet ::
  "DirMtimeEntry list \<Rightarrow> (string \<times> DirMtimeEntry) list \<Rightarrow> (string \<times> DirMtimeEntry) list" where
  "dirBatchSet entries db = foldl (\<lambda>db entry. setItem (dm_path entry) entry db) db entries"

text \<open>
  \<^verbatim>\<open>iterateAll\<close> hands \<^verbatim>\<open>localforage.iterate\<close> an \<^verbatim>\<open>async\<close> iterator. Whatever the
  callback answers, the value the iterator returns to the library is a promise, which is
  not \<^verbatim>\<open>undefined\<close>; the promise is awaited by the caller, so the callback has run to its
  end on the entry it was given when \<^verbatim>\<open>iterateAll\<close> returns.
\<close>

datatype signal = Continue | Stop | Void

definition iterateAll ::
  "(FileIndexEntry \<Rightarrow> 'a \<Rightarrow> signal \<times> 'a) \<Rightarrow> (string \<times> FileIndexEntry) list \<Rightarrow> 'a \<Rightarrow> 'a" where
  "iterateAll callback db a =
     snd (lf_iterate
       (\<lambda>value key a.
          case callback value a of
            (shouldContinue, a') \<Rightarrow>
              (if shouldContinue = Stop then (Some (), a') else (Some (), a')))
       db a)"

section \<open>The remote delta detector\<close>

definition propfind ::
  "remote \<Rightarrow> string \<Rightarrow> depth \<Rightarrow> world \<Rightarrow> StatModel list option \<times> world" where
  "propfind pf path d w = (pf path d, w\<lparr>requests := requests w @ [(path, d)]\<rparr>)"

definition statDir :: "remote \<Rightarrow> string \<Rightarrow> world \<Rightarrow> int option \<times> world" where
  "statDir pf path w =
     (case propfind pf path Depth0 w of
        (None, w') \<Rightarrow> (None, w')
      | (Some [], w') \<Rightarrow> (None, w')
      | (Some (r # rs), w') \<Rightarrow> (Some (orZero (st_mtime r)), w'))"

definition getSubDirs :: "remote \<Rightarrow> string \<Rightarrow> world \<Rightarrow> string list \<times> world" where
  "getSubDirs pf path w =
     (case propfind pf path Depth1 w of
        (None, w') \<Rightarrow> ([], w')
      | (Some contents, w') \<Rightarrow>
          (map st_path (filter (\<lambda>item. st_isDir item \<and> st_path item \<noteq> path) contents), w'))"

definition listDir :: "remote \<Rightarrow> string \<Rightarrow> world \<Rightarrow> StatModel list \<times> world" where
  "listDir pf path w =
     (case propfind pf path Depth1 w of
        (None, w') \<Rightarrow> ([], w')
      | (Some contents, w') \<Rightarrow> (filter (\<lambda>item. st_path item \<noteq> path) contents, w'))"

definition isModified :: "FileIndexEntry \<Rightarrow> StatModel \<Rightarrow> bool" where
  "isModified cached remote =
     (if fe_isDir cached \<noteq> st_isDir remote then True
      else if \<not> st_isDir remote \<and> fe_mtime cached \<noteq> st_mtime remote then True
      else if \<not> st_isDir remote \<and> fe_size cached \<noteq> st_size remote then True
      else False)"

definition mkChange :: "string \<Rightarrow> changeType \<Rightarrow> StatModel option \<Rightarrow> RemoteChange" where
  "mkChange p t s = \<lparr>ch_path = p, ch_type = t, ch_stat = s\<rparr>"

definition diffMaps ::
  "(string \<times> StatModel) list \<Rightarrow> (string \<times> FileIndexEntry) list \<Rightarrow> RemoteChange list" where
  "diffMaps remoteMap cachedMap =
     concat (map (\<lambda>(path, remoteStat).
        case map_of cachedMap path of
          None \<Rightarrow> [mkChange path Added (Some remoteStat)]
        | Some cached \<Rightarrow>
            (if isModified cached remoteStat then [mkChange path Modified (Some remoteStat)]
             else [])) remoteMap)
     @ concat (map (\<lambda>(path, cached).
        if map_of remoteMap path = None then [mkChange path Deleted None] else []) cachedMap)"

definition scanDirForChanges ::
  "remote \<Rightarrow> string \<Rightarrow> world \<Rightarrow> RemoteChange list \<times> world" where
  "scanDirForChanges pf dirPath w =
     (case listDir pf dirPath w of
        (remoteFiles, w') \<Rightarrow>
          let remoteMap = jsMap (map (\<lambda>f. (st_path f, f)) remoteFiles);
              cachedFiles = getByParent dirPath 0 1000 (fileIndex w');
              cachedMap = jsMap (map (\<lambda>f. (fe_path f, f)) cachedFiles)
          in (diffMaps remoteMap cachedMap, w'))"


text \<open>
  Running an action over a list, stopping when one of them does not return. The detector
  starts the scans of one chunk of sub-directories together and awaits the chunk; the
  model runs them one after the other, chunk by chunk, in list order.
\<close>

fun forEachM :: "('a \<Rightarrow> 's \<Rightarrow> 's option) \<Rightarrow> 'a list \<Rightarrow> 's \<Rightarrow> 's option" where
  "forEachM f [] s = Some s"
| "forEachM f (x # xs) s = (case f x s of None \<Rightarrow> None | Some s' \<Rightarrow> forEachM f xs s')"

definition concurrency :: nat where
  "concurrency = 5"

text \<open>
  \<^verbatim>\<open>detectDirChanges\<close> recurses along whatever sub-directories the remote reports, so the
  recursion depth is bounded by a fuel argument; \<open>None\<close> means the fuel ran out. The state
  is the list \<^verbatim>\<open>changedDirs\<close>, the counter behind \<^verbatim>\<open>onScanned\<close>, and the world.
\<close>

primrec detectDirChanges ::
  "nat \<Rightarrow> remote \<Rightarrow> (string \<times> DirMtimeEntry) list \<Rightarrow> string \<Rightarrow>
   string list \<times> nat \<times> world \<Rightarrow> (string list \<times> nat \<times> world) option" where
  "detectDirChanges 0 pf cachedMtimes dirPath st = None"
| "detectDirChanges (Suc fuel) pf cachedMtimes dirPath st =
     (case st of (changedDirs, scanned, w) \<Rightarrow>
        (case statDir pf dirPath w of
           (None, w1) \<Rightarrow> Some (changedDirs @ [dirPath], Suc scanned, w1)
         | (Some currentMtime, w1) \<Rightarrow>
             (if (case map_of cachedMtimes dirPath of
                    None \<Rightarrow> False
                  | Some cached \<Rightarrow> dm_mtime cached = currentMtime)
              then Some (changedDirs, Suc scanned, w1)
              else
                (case getSubDirs pf dirPath w1 of
                   (subDirs, w2) \<Rightarrow>
                     forEachM (\<lambda>chunk. forEachM (detectDirChanges fuel pf cachedMtimes) chunk)
                       (chunkArray subDirs concurrency)
                       (changedDirs @ [dirPath], Suc scanned, w2)))))"

definition scanChangedDirs ::
  "remote \<Rightarrow> string list \<Rightarrow> world \<Rightarrow> RemoteChange list \<times> world" where
  "scanChangedDirs pf dirs w =
     foldl (\<lambda>(chs, w) dir.
        case scanDirForChanges pf dir w of (dirChanges, w') \<Rightarrow> (chs @ dirChanges, w'))
       ([], w) dirs"

definition detectChanges ::
  "nat \<Rightarrow> remote \<Rightarrow> string \<Rightarrow> world \<Rightarrow> (DeltaDetectionResult \<times> world) option" where
  "detectChanges fuel pf remoteBaseDir w =
     (let cachedDirMtimes = getAll (dirMtimeStore w) in
      if length cachedDirMtimes = 0 then
        Some (\<lparr>dr_changes = [], dr_needFullScan = True, dr_scannedDirs = 0, dr_changedDirs = 0\<rparr>, w)
      else
        (case detectDirChanges fuel pf cachedDirMtimes remoteBaseDir ([], 0, w) of
           None \<Rightarrow> None
         | Some (changedDirList, scanned, w1) \<Rightarrow>
             (case scanChangedDirs pf changedDirList w1 of
                (chs, w2) \<Rightarrow>
                  Some (\<lparr>dr_changes = chs, dr_needFullScan = False, dr_scannedDirs = scanned,
                         dr_changedDirs = length changedDirList\<rparr>, w2))))"

subsection \<open>Full scan\<close>

text \<open>
  A full scan can fail: a PROPFIND that throws propagates to the caller (\<open>Threw\<close>; the
  partially written stores are not tracked further), and the recursion may not end on a
  remote that keeps reporting sub-directories (\<open>OutOfFuel\<close>).
\<close>

datatype 'a result = OutOfFuel | Threw | Ok 'a

fun forEachR :: "('a \<Rightarrow> 's \<Rightarrow> 's result) \<Rightarrow> 'a list \<Rightarrow> 's \<Rightarrow> 's result" where
  "forEachR f [] s = Ok s"
| "forEachR f (x # xs) s =
     (case f x s of OutOfFuel \<Rightarrow> OutOfFuel | Threw \<Rightarrow> Threw | Ok s' \<Rightarrow> forEachR f xs s')"

primrec scanDirRecursive ::
  "nat \<Rightarrow> remote \<Rightarrow> (StatModel list \<Rightarrow> string \<Rightarrow> int \<Rightarrow> 'c \<times> world \<Rightarrow> 'c \<times> world) \<Rightarrow>
   string \<Rightarrow> 'c \<times> world \<Rightarrow> ('c \<times> world) result" where
  "scanDirRecursive 0 pf onBatch dirPath st = OutOfFuel"
| "scanDirRecursive (Suc fuel) pf onBatch dirPath st =
     (case st of (c, w) \<Rightarrow>
        (case propfind pf dirPath Depth1 w of
           (None, w1) \<Rightarrow> Threw
         | (Some contents, w1) \<Rightarrow>
             (let dirMtime = (case find (\<lambda>c. st_path c = dirPath) contents of
                                None \<Rightarrow> 0
                              | Some dirStat \<Rightarrow> orZero (st_mtime dirStat));
                  items = filter (\<lambda>c. st_path c \<noteq> dirPath) contents;
                  st1 = onBatch items dirPath dirMtime (c, w1);
                  subDirs = filter (\<lambda>item. st_isDir item) items
              in forEachR
                   (\<lambda>chunk. forEachR
                      (\<lambda>subDir. scanDirRecursive fuel pf onBatch (st_path subDir)) chunk)
                   (chunkArray subDirs concurrency) st1)))"

definition scanEntry :: "StatModel \<Rightarrow> FileIndexEntry" where
  "scanEntry stat =
     \<lparr>fe_path = st_path stat,
      fe_basename = st_basename stat,
      fe_isDir = st_isDir stat,
      fe_mtime = orZero (st_mtime stat),
      fe_size = (if st_isDir stat then 0 else st_size stat),
      fe_etag = None,
      fe_contentHash = None,
      fe_lastSynced = 0,
      fe_parentPath = dirname (st_path stat)\<rparr>"

text \<open>The batch callback of \<^verbatim>\<open>fullScan\<close>; its closure holds \<^verbatim>\<open>fileCount\<close>, \<^verbatim>\<open>dirCount\<close>
  and \<^verbatim>\<open>dirMtimes\<close>. \<open>now\<close> is the reading of \<^verbatim>\<open>Date.now()\<close>. The progress callback only
  reports to the user interface and is left out.\<close>

definition fullScanBatch ::
  "int \<Rightarrow> StatModel list \<Rightarrow> string \<Rightarrow> int \<Rightarrow>
   (nat \<times> nat \<times> DirMtimeEntry list) \<times> world \<Rightarrow> (nat \<times> nat \<times> DirMtimeEntry list) \<times> world" where
  "fullScanBatch now entries dirPath dirMtime st =
     (case st of ((fileCount, dirCount, dirMtimes), w) \<Rightarrow>
        ((fileCount + length (filter (\<lambda>e. \<not> st_isDir e) entries),
          dirCount + length (filter (\<lambda>e. st_isDir e) entries),
          dirMtimes @ [\<lparr>dm_path = dirPath, dm_mtime = dirMtime, dm_lastChecked = now,
                        dm_childCount = length entries\<rparr>]),
         w\<lparr>fileIndex := batchSet (map scanEntry entries) (fileIndex w)\<rparr>))"

definition fullScan ::
  "nat \<Rightarrow> remote \<Rightarrow> string \<Rightarrow> int \<Rightarrow> world \<Rightarrow> ((nat \<times> nat) \<times> world) result" where
  "fullScan fuel pf remoteBaseDir now w =
     (case scanDirRecursive fuel pf (fullScanBatch now) remoteBaseDir
             ((0, 0, []), w\<lparr>fileIndex := [], dirMtimeStore := []\<rparr>) of
        OutOfFuel \<Rightarrow> OutOfFuel
      | Threw \<Rightarrow> Threw
      | Ok ((fileCount, dirCount, dirMtimes), w1) \<Rightarrow>
          Ok ((fileCount, dirCount),
              w1\<lparr>dirMtimeStore := dirBatchSet dirMtimes (dirMtimeStore w1)\<rparr>))"

subsection \<open>Applying changes\<close>

definition affectedDirs :: "RemoteChange list \<Rightarrow> string list" where
  "affectedDirs chs =
     foldl (\<lambda>s change. if dirname (ch_path change) \<in> set s then s
                        else s @ [dirname (ch_path change)]) [] chs"

definition updateDirMtimeCache :: "remote \<Rightarrow> int \<Rightarrow> RemoteChange list \<Rightarrow> world \<Rightarrow> world" where
  "updateDirMtimeCache pf now chs w =
     foldl (\<lambda>w dirPath.
        case statDir pf dirPath w of
          (None, w') \<Rightarrow> w'
        | (Some m, w') \<Rightarrow>
            w'\<lparr>dirMtimeStore :=
                 setItem dirPath
                   \<lparr>dm_path = dirPath, dm_mtime = m, dm_lastChecked = now, dm_childCount = 0\<rparr>
                   (dirMtimeStore w')\<rparr>)
       w (affectedDirs chs)"

definition changeEntry :: "int \<Rightarrow> RemoteChange \<Rightarrow> StatModel \<Rightarrow> FileIndexEntry" where
  "changeEntry now change stat =
     \<lparr>fe_path = ch_path change,
      fe_basename = st_basename stat,
      fe_isDir = st_isDir stat,
      fe_mtime = orZero (st_mtime stat),
      fe_size = (if st_isDir stat then 0 else st_size stat),
      fe_etag = None,
      fe_contentHash = None,
      fe_lastSynced = now,
      fe_parentPath = dirname (ch_path change)\<rparr>"

definition collectChange ::
  "int \<Rightarrow> FileIndexEntry list \<times> string list \<Rightarrow> RemoteChange \<Rightarrow>
   FileIndexEntry list \<times> string list" where
  "collectChange now acc change =
     (case acc of (toSet, toDelete) \<Rightarrow>
        if ch_type change = Deleted then (toSet, toDelete @ [ch_path change])
        else (case ch_stat change of
                Some stat \<Rightarrow> (toSet @ [changeEntry now change stat], toDelete)
              | None \<Rightarrow> (toSet, toDelete)))"

definition updateFileIndex :: "int \<Rightarrow> RemoteChange list \<Rightarrow> world \<Rightarrow> world" where
  "updateFileIndex now chs w =
     (case foldl (collectChange now) ([], []) chs of
        (toSet, toDelete) \<Rightarrow>
          let w1 = (if length toSet > 0
                    then w\<lparr>fileIndex := batchSet toSet (fileIndex w)\<rparr> else w);
              w2 = (if length toDelete > 0
                    then w1\<lparr>fileIndex := batchDelete toDelete (fileIndex w1)\<rparr> else w1)
          in w2)"

definition getStats :: "world \<Rightarrow> int \<times> int" where
  "getStats w =
     (let allPaths = getAllDirs (fileIndex w);
          totalCount = count (fileIndex w)
      in (int totalCount - int (length allPaths), int (length allPaths)))"


section \<open>The sync driver (IncrementalWebDAVFileSystem)\<close>

text \<open>
  The helpers the driver imports from files outside the given sources are parameters:
  HTML-entity decoding, \<^verbatim>\<open>stdRemotePath\<close>, \<^verbatim>\<open>isSub\<close>, the evaluation of the configured
  glob rules on a relative path, and \<^verbatim>\<open>completeLossDir\<close>.
\<close>

record externals =
  decodeHtmlEntity :: "string \<Rightarrow> string"
  stdRemotePath :: "string \<Rightarrow> string"
  isSub :: "string \<Rightarrow> string \<Rightarrow> bool"
  needInclude :: "string \<Rightarrow> bool"
  completeLossDir :: "StatModel list \<Rightarrow> StatModel list \<Rightarrow> StatModel list"

definition indexCallback ::
  "externals \<Rightarrow> string \<Rightarrow> FileIndexEntry \<Rightarrow> StatModel list \<Rightarrow> signal \<times> StatModel list" where
  "indexCallback ext remoteBaseDir entry stats =
     (let path0 = decodeHtmlEntity ext (fe_path entry);
          path1 = (if endsWith path0 ''/'' then butlast path0 else path0);
          path2 = (if \<not> startsWith path1 ''/'' then ''/'' @ path1 else path1)
      in if \<not> isSub ext (stdRemotePath ext remoteBaseDir) path2 then (Continue, stats)
         else
           let rel0 = removeFirst remoteBaseDir path2;
               relativePath = (if startsWith rel0 ''/'' then drop 1 rel0 else rel0)
           in if fe_isDir entry then
                (Continue, stats @ [\<lparr>st_path = relativePath, st_basename = fe_basename entry,
                                     st_isDir = True, st_isDeleted = False,
                                     st_mtime = fe_mtime entry, st_size = 0\<rparr>])
              else
                (Continue, stats @ [\<lparr>st_path = relativePath, st_basename = fe_basename entry,
                                     st_isDir = False, st_isDeleted = False,
                                     st_mtime = fe_mtime entry, st_size = fe_size entry\<rparr>]))"

definition getFromIndex :: "externals \<Rightarrow> string \<Rightarrow> world \<Rightarrow> StatModel list" where
  "getFromIndex ext remoteBaseDir w =
     (let stats = iterateAll (indexCallback ext remoteBaseDir) (fileIndex w) [];
          filteredStats = filter (\<lambda>item. needInclude ext (st_path item)) stats
      in completeLossDir ext stats filteredStats)"

definition fsFullScan ::
  "nat \<Rightarrow> externals \<Rightarrow> remote \<Rightarrow> string \<Rightarrow> int \<Rightarrow> world \<Rightarrow> (StatModel list \<times> world) result" where
  "fsFullScan fuel ext pf remoteBaseDir now w =
     (let startTime = now;
          w0 = w\<lparr>progressStore := Some
                 \<lparr>sp_sessionId = startTime, sp_startTime = startTime, sp_phase = scanning,
                  sp_processedCount = 0, sp_totalCount = 0, sp_currentPath = remoteBaseDir,
                  sp_pendingTasks = [], sp_completedTasks = [], sp_failedTasks = []\<rparr>\<rparr>
      in case fullScan fuel pf remoteBaseDir now w0 of
           OutOfFuel \<Rightarrow> OutOfFuel
         | Threw \<Rightarrow> Threw
         | Ok (res, w1) \<Rightarrow>
             (let w2 = w1\<lparr>progressStore := None\<rparr>
              in Ok (getFromIndex ext remoteBaseDir w2, w2)))"

definition applyChanges :: "remote \<Rightarrow> int \<Rightarrow> RemoteChange list \<Rightarrow> world \<Rightarrow> world" where
  "applyChanges pf now chs w = updateDirMtimeCache pf now chs (updateFileIndex now chs w)"

definition walk ::
  "nat \<Rightarrow> externals \<Rightarrow> remote \<Rightarrow> string \<Rightarrow> int \<Rightarrow> world \<Rightarrow> (StatModel list \<times> world) result" where
  "walk fuel ext pf remoteBaseDir now w =
     (let indexCount = count (fileIndex w) in
      if indexCount = 0 then fsFullScan fuel ext pf remoteBaseDir now w
      else
        (case detectChanges fuel pf remoteBaseDir w of
           None \<Rightarrow> OutOfFuel
         | Some (deltaResult, w1) \<Rightarrow>
             if dr_needFullScan deltaResult then fsFullScan fuel ext pf remoteBaseDir now w1
             else if length (dr_changes deltaResult) = 0
               then Ok (getFromIndex ext remoteBaseDir w1, w1)
             else
               (let w2 = applyChanges pf now (dr_changes deltaResult) w1
                in Ok (getFromIndex ext remoteBaseDir w2, w2))))"

text \<open>\<^verbatim>\<open>getStats\<close> of the driver: file count, directory count, \<^verbatim>\<open>hasIndex\<close>.\<close>

definition getIndexStats :: "world \<Rightarrow> int \<times> int \<times> bool" where
  "getIndexStats w =
     (if count (fileIndex w) = 0 then (0, 0, False)
      else (case getStats w of (fileCount, dirCount) \<Rightarrow> (fileCount, dirCount, True)))"

section \<open>Scenarios\<close>

text \<open>A fresh namespace, and the records \<^verbatim>\<open>parsePropfindResponse\<close> builds for a file and
  for a directory.\<close>

definition emptyWorld :: world where
  "emptyWorld = \<lparr>fileIndex = [], dirMtimeStore = [], progressStore = None, requests = []\<rparr>"

definition fileStat :: "string \<Rightarrow> string \<Rightarrow> int \<Rightarrow> int \<Rightarrow> StatModel" where
  "fileStat p b m sz =
     \<lparr>st_path = p, st_basename = b, st_isDir = False, st_isDeleted = False,
      st_mtime = m, st_size = sz\<rparr>"

definition dirStat :: "string \<Rightarrow> string \<Rightarrow> int \<Rightarrow> StatModel" where
  "dirStat p b m =
     \<lparr>st_path = p, st_basename = b, st_isDir = True, st_isDeleted = False,
      st_mtime = m, st_size = 0\<rparr>"

text \<open>Modelled from the spec: \<^verbatim>\<open>isSub\<close>, which is not among the given sources; the spec
  has the listing drop the entries that are not under the base directory.\<close>

definition isSubSpec :: "string \<Rightarrow> string \<Rightarrow> bool" where
  "isSubSpec parent sub =
     (sub \<noteq> parent \<and> startsWith sub (if endsWith parent ''/'' then parent else parent @ ''/''))"

text \<open>Modelled from the spec: \<^verbatim>\<open>stdRemotePath\<close>, which is not among the given sources; the
  spec's normal form of a remote path has a leading slash and no trailing slash except
  for the root.\<close>

definition stdRemotePathSpec :: "string \<Rightarrow> string" where
  "stdRemotePathSpec p =
     (let q = (if startsWith p ''/'' then p else ''/'' @ p)
      in if endsWith q ''/'' \<and> q \<noteq> ''/'' then butlast q else q)"

text \<open>Modelled from the spec: \<^verbatim>\<open>completeLossDir\<close>, which is not among the given sources;
  the spec has it re-add the ancestor directories of included entries that the filter
  removed.\<close>

definition completeLossDirSpec :: "StatModel list \<Rightarrow> StatModel list \<Rightarrow> StatModel list" where
  "completeLossDirSpec stats filtered =
     filtered @
     filter (\<lambda>d. st_isDir d \<and> d \<notin> set filtered \<and>
                 (\<exists>f \<in> set filtered. startsWith (st_path f) (st_path d @ ''/''))) stats"

text \<open>The helpers with no filter rule configured and paths free of HTML entities.\<close>

definition plainExt :: externals where
  "plainExt =
     \<lparr>decodeHtmlEntity = (\<lambda>p. p), stdRemotePath = stdRemotePathSpec, isSub = isSubSpec,
      needInclude = (\<lambda>p. True), completeLossDir = completeLossDirSpec\<rparr>"

text \<open>Scenario S1: the remote tree \<^verbatim>\<open>/base\<close> with the single file \<^verbatim>\<open>/base/a.txt\<close>
  (mtime 100, size 10). A path the server does not know answers with an error.\<close>

definition remoteS1 :: remote where
  "remoteS1 p d =
     (if p = ''/base'' then
        (case d of
           Depth0 \<Rightarrow> Some [dirStat ''/base'' ''base'' 50]
         | Depth1 \<Rightarrow> Some [dirStat ''/base'' ''base'' 50, fileStat ''/base/a.txt'' ''a.txt'' 100 10])
      else None)"

text \<open>Scenario S4: \<^verbatim>\<open>/base/sub\<close> with the files x, y and z, and the same remote after the
  whole of \<^verbatim>\<open>/base/sub\<close> was removed, which moved the mtime of \<^verbatim>\<open>/base\<close>.\<close>

definition remoteS4 :: remote where
  "remoteS4 p d =
     (if p = ''/base'' then
        (case d of
           Depth0 \<Rightarrow> Some [dirStat ''/base'' ''base'' 50]
         | Depth1 \<Rightarrow> Some [dirStat ''/base'' ''base'' 50, dirStat ''/base/sub'' ''sub'' 60])
      else if p = ''/base/sub'' then
        (case d of
           Depth0 \<Rightarrow> Some [dirStat ''/base/sub'' ''sub'' 60]
         | Depth1 \<Rightarrow> Some [dirStat ''/base/sub'' ''sub'' 60,
                           fileStat ''/base/sub/x'' ''x'' 61 1,
                           fileStat ''/base/sub/y'' ''y'' 62 2,
                           fileStat ''/base/sub/z'' ''z'' 63 3])
      else None)"

definition remoteS4removed :: remote where
  "remoteS4removed p d =
     (if p = ''/base'' then Some [dirStat ''/base'' ''base'' 70] else None)"


text \<open>The world a walk leaves behind (the fresh world if the walk did not return).\<close>

definition worldOf :: "(StatModel list \<times> world) result \<Rightarrow> world" where
  "worldOf r = (case r of Ok (listing, w) \<Rightarrow> w | _ \<Rightarrow> emptyWorld)"

definition listingOf :: "(StatModel list \<times> world) result \<Rightarrow> StatModel list option" where
  "listingOf r = (case r of Ok (listing, w) \<Rightarrow> Some listing | _ \<Rightarrow> None)"

definition worldS1 :: world where
  "worldS1 = worldOf (walk 5 plainExt remoteS1 ''/base'' 1000 emptyWorld)"

definition worldS4 :: world where
  "worldS4 = worldOf (walk 5 plainExt remoteS4 ''/base'' 1000 emptyWorld)"

definition worldS4removed :: world where
  "worldS4removed = worldOf (walk 5 plainExt remoteS4removed ''/base'' 2000 worldS4)"

text \<open>Scenario S3: after S1 the file has mtime 200 and size 20, and \<^verbatim>\<open>/base\<close> moved.\<close>

definition remoteS3 :: remote where
  "remoteS3 p d =
     (if p = ''/base'' then
        (case d of
           Depth0 \<Rightarrow> Some [dirStat ''/base'' ''base'' 55]
         | Depth1 \<Rightarrow> Some [dirStat ''/base'' ''base'' 55, fileStat ''/base/a.txt'' ''a.txt'' 200 20])
      else None)"

text \<open>The removed \<^verbatim>\<open>/base/sub\<close> of S4 is created again with the same three files.\<close>

definition remoteS4restored :: remote where
  "remoteS4restored p d =
     (if p = ''/base'' then
        (case d of
           Depth0 \<Rightarrow> Some [dirStat ''/base'' ''base'' 90]
         | Depth1 \<Rightarrow> Some [dirStat ''/base'' ''base'' 90, dirStat ''/base/sub'' ''sub'' 80])
      else if p = ''/base/sub'' then
        (case d of
           Depth0 \<Rightarrow> Some [dirStat ''/base/sub'' ''sub'' 80]
         | Depth1 \<Rightarrow> Some [dirStat ''/base/sub'' ''sub'' 80,
                           fileStat ''/base/sub/x'' ''x'' 61 1,
                           fileStat ''/base/sub/y'' ''y'' 62 2,
                           fileStat ''/base/sub/z'' ''z'' 63 3])
      else None)"




text \<open>A directory \<^verbatim>\<open>/big\<close> with 1001 files, named a, aa, aaa, ...; the mtime of the last
  one is a parameter. \<open>bigIndex\<close> is the file index a full scan of it builds.\<close>

definition bigName :: "nat \<Rightarrow> string" where
  "bigName n = replicate (Suc n) (CHR ''a'')"

definition bigPath :: "nat \<Rightarrow> string" where
  "bigPath n = ''/big/'' @ bigName n"

definition bigStat :: "int \<Rightarrow> nat \<Rightarrow> StatModel" where
  "bigStat m n = fileStat (bigPath n) (bigName n) m 10"

definition remoteBig :: "int \<Rightarrow> remote" where
  "remoteBig lastMtime p d =
     (if p = ''/big'' then
        (case d of
           Depth0 \<Rightarrow> Some [dirStat ''/big'' ''big'' 50]
         | Depth1 \<Rightarrow> Some (dirStat ''/big'' ''big'' 50 # map (bigStat 100) [0..<1000]
                             @ [bigStat lastMtime 1000]))
      else None)"

definition worldBig :: world where
  "worldBig = worldOf (walk 5 plainExt (remoteBig 100) ''/big'' 1000 emptyWorld)"

definition bigIndex :: "(string \<times> FileIndexEntry) list" where
  "bigIndex = map (\<lambda>n. (bigPath n, scanEntry (bigStat 100 n))) [0..<1001]"

section \<open>Observables and predicates used in the statements\<close>


text \<open>The three persistent stores of two worlds agree.\<close>

definition sameStores :: "world \<Rightarrow> world \<Rightarrow> bool" where
  "sameStores w w' =
     (fileIndex w' = fileIndex w \<and> dirMtimeStore w' = dirMtimeStore w \<and>
      progressStore w' = progressStore w)"

text \<open>Invariant 1 of the data model: the parent path of every file entry is the root or
  the path of an entry that is a directory.\<close>

definition parentsOk :: "string \<Rightarrow> (string \<times> FileIndexEntry) list \<Rightarrow> bool" where
  "parentsOk root db =
     list_all (\<lambda>(k, e). fe_parentPath e = root \<or>
                 (case map_of db (fe_parentPath e) of None \<Rightarrow> False | Some d \<Rightarrow> fe_isDir d)) db"

text \<open>A callback instrumented with the list of its visits: the entry it was called on and
  the signal it answered.\<close>

definition logged ::
  "(FileIndexEntry \<Rightarrow> 'a \<Rightarrow> signal \<times> 'a) \<Rightarrow> FileIndexEntry \<Rightarrow>
   (FileIndexEntry \<times> signal) list \<times> 'a \<Rightarrow> signal \<times> (FileIndexEntry \<times> signal) list \<times> 'a" where
  "logged callback entry st =
     (case st of (visits, a) \<Rightarrow>
        (case callback entry a of (sig, a') \<Rightarrow> (sig, visits @ [(entry, sig)], a')))"

section \<open>Well-formed remotes and worlds produced by walks\<close>







text \<open>A base directory configured with a trailing slash, on the tree of S1.\<close>

definition remoteSlash :: remote where
  "remoteSlash p d =
     (if p = ''/base/'' \<or> p = ''/base'' then
        (case d of
           Depth0 \<Rightarrow> Some [dirStat ''/base'' ''base'' 50]
         | Depth1 \<Rightarrow> Some [dirStat ''/base'' ''base'' 50, fileStat ''/base/a.txt'' ''a.txt'' 100 10])
      else None)"

definition worldSlash :: world where
  "worldSlash = worldOf (walk 5 plainExt remoteSlash ''/base/'' 1000 emptyWorld)"

section \<open>Predicates used in the proofs\<close>





section \<open>Properties\<close>

subsection \<open>Chunked batches\<close>

lemma chunkArray_Nil [simp]: "chunkArray [] sz = []"
  by (subst chunkArray.simps) simp

lemma chunkArray_step:
  "xs \<noteq> [] \<Longrightarrow> 0 < sz \<Longrightarrow> chunkArray xs sz = take sz xs # chunkArray (drop sz xs) sz"
  by (subst chunkArray.simps) simp

lemma foldl_chunks:
  "0 < sz \<Longrightarrow> foldl (\<lambda>a batch. foldl f a batch) a (chunkArray xs sz) = foldl f a xs"
proof (induction xs sz arbitrary: a rule: chunkArray.induct)
  case (1 array sz)
  show ?case
  proof (cases "array = []")
    case True
    then show ?thesis by simp
  next
    case False
    with "1.prems" have
      "foldl (\<lambda>a batch. foldl f a batch) (foldl f a (take sz array))
         (chunkArray (drop sz array) sz)
       = foldl f (foldl f a (take sz array)) (drop sz array)"
      using "1.IH" by simp
    also have "\<dots> = foldl f a (take sz array @ drop sz array)"
      by (simp only: foldl_append)
    finally show ?thesis using False "1.prems"
      by (simp add: chunkArray_step)
  qed
qed

lemma concat_chunkArray: "0 < sz \<Longrightarrow> concat (chunkArray xs sz) = xs"
proof (induction xs sz rule: chunkArray.induct)
  case (1 array sz)
  then show ?case
    by (cases "array = []") (simp_all add: chunkArray_step)
qed

lemma batchSet_foldl:
  "batchSet entries db = foldl (\<lambda>db entry. setItem (fe_path entry) entry db) db entries"
  by (simp add: batchSet_def BATCH_SIZE_def foldl_chunks)

lemma batchDelete_foldl:
  "batchDelete paths db = foldl (\<lambda>db path. removeItem path db) db paths"
  by (simp add: batchDelete_def BATCH_SIZE_def foldl_chunks)

lemma map_of_batchSet_other:
  "p \<notin> fe_path ` set entries \<Longrightarrow> map_of (batchSet entries db) p = map_of db p"
  unfolding batchSet_foldl
  by (induction entries arbitrary: db) (simp_all add: setItem_def update_conv')

lemma map_of_batchDelete_other:
  "p \<notin> set paths \<Longrightarrow> map_of (batchDelete paths db) p = map_of db p"
  unfolding batchDelete_foldl
  by (induction paths arbitrary: db) (simp_all add: removeItem_def delete_conv')

subsection \<open>Applying a change list to the file index\<close>

lemma collectChange_paths:
  "foldl (collectChange now) acc chs = (toSet, toDelete) \<Longrightarrow>
   fe_path ` set toSet \<subseteq> fe_path ` set (fst acc) \<union> ch_path ` set chs \<and>
   set toDelete \<subseteq> set (snd acc) \<union> ch_path ` set chs"
proof (induction chs arbitrary: acc)
  case Nil
  then show ?case by auto
next
  case (Cons c chs)
  from Cons.prems
  have "foldl (collectChange now) (collectChange now acc c) chs = (toSet, toDelete)"
    by simp
  from Cons.IH[OF this] show ?case
    by (cases acc) (auto simp: collectChange_def changeEntry_def split: if_splits option.splits)
qed

lemma collectChange_ignored:
  "ch_type c \<noteq> Deleted \<Longrightarrow> ch_stat c = None \<Longrightarrow> collectChange now acc c = acc"
  by (cases acc) (simp add: collectChange_def)

lemma map_of_updateFileIndex_other:
  assumes "p \<notin> ch_path ` set chs"
  shows "map_of (fileIndex (updateFileIndex now chs w)) p = map_of (fileIndex w) p"
proof -
  obtain toSet toDelete where f: "foldl (collectChange now) ([], []) chs = (toSet, toDelete)"
    by (cases "foldl (collectChange now) ([], []) chs")
  from collectChange_paths[OF f] assms
  have "p \<notin> fe_path ` set toSet" "p \<notin> set toDelete" by auto
  then show ?thesis
    by (simp add: updateFileIndex_def f Let_def map_of_batchSet_other map_of_batchDelete_other)
qed

text \<open>
  C10. A change of type added or modified that carries no stat is skipped by
  \<^verbatim>\<open>updateFileIndex\<close>: the result is the one obtained from the change list without it, and
  when no other change of the list names its path, the record stored under that path is
  the one stored before.
\<close>

theorem updateFileIndex_ignores_statless:
  assumes "ch_type c \<noteq> Deleted" and "ch_stat c = None"
  shows "updateFileIndex now (cs1 @ c # cs2) w = updateFileIndex now (cs1 @ cs2) w \<and>
         ((\<forall>c' \<in> set (cs1 @ cs2). ch_path c' \<noteq> ch_path c) \<longrightarrow>
            getItem (ch_path c) (fileIndex (updateFileIndex now (cs1 @ c # cs2) w))
              = getItem (ch_path c) (fileIndex w))"
proof -
  have eq: "updateFileIndex now (cs1 @ c # cs2) w = updateFileIndex now (cs1 @ cs2) w"
    using assms by (simp add: updateFileIndex_def collectChange_ignored)
  have "(\<forall>c' \<in> set (cs1 @ cs2). ch_path c' \<noteq> ch_path c) \<Longrightarrow>
        map_of (fileIndex (updateFileIndex now (cs1 @ cs2) w)) (ch_path c)
          = map_of (fileIndex w) (ch_path c)"
    by (rule map_of_updateFileIndex_other) auto
  with eq show ?thesis by (simp add: getItem_def)
qed

theorem updateFileIndex_ignores_statless_witness:
  "ch_type (mkChange ''/base/a.txt'' Modified None) \<noteq> Deleted \<and>
   ch_stat (mkChange ''/base/a.txt'' Modified None) = None \<and>
   ch_path (mkChange ''/base/old'' Deleted None)
     \<noteq> ch_path (mkChange ''/base/a.txt'' Modified None) \<and>
   updateFileIndex 7
     ([mkChange ''/base/old'' Deleted None] @ mkChange ''/base/a.txt'' Modified None # [])
     worldS1
     = updateFileIndex 7 ([mkChange ''/base/old'' Deleted None] @ []) worldS1 \<and>
   getItem (ch_path (mkChange ''/base/a.txt'' Modified None))
     (fileIndex (updateFileIndex 7
        ([mkChange ''/base/old'' Deleted None] @ mkChange ''/base/a.txt'' Modified None # [])
        worldS1))
     = getItem (ch_path (mkChange ''/base/a.txt'' Modified None)) (fileIndex worldS1)"
proof -
  have a: "ch_type (mkChange ''/base/a.txt'' Modified None) \<noteq> Deleted"
    and b: "ch_stat (mkChange ''/base/a.txt'' Modified None) = None"
    by (simp_all add: mkChange_def)
  have d: "\<forall>c' \<in> set ([mkChange ''/base/old'' Deleted None] @ []).
             ch_path c' \<noteq> ch_path (mkChange ''/base/a.txt'' Modified None)"
    by (simp add: mkChange_def)
  have e: "ch_path (mkChange ''/base/old'' Deleted None)
             \<noteq> ch_path (mkChange ''/base/a.txt'' Modified None)"
    by (simp add: mkChange_def)
  from updateFileIndex_ignores_statless
         [OF a b, of 7 "[mkChange ''/base/old'' Deleted None]" "[]" worldS1] a b d e
  show ?thesis by blast
qed

subsection \<open>Maps\<close>

lemma distinct_foldl_update:
  "distinct (map fst m) \<Longrightarrow>
   distinct (map fst (foldl (\<lambda>m (k, v). AList.update k v m) m ps))"
  by (induction ps arbitrary: m) (auto simp: distinct_update)

lemma distinct_jsMap: "distinct (map fst (jsMap ps))"
  by (simp add: jsMap_def distinct_foldl_update)

lemma foldl_update_nonempty:
  "m \<noteq> [] \<Longrightarrow> foldl (\<lambda>m (k, v). AList.update k v m) m ps \<noteq> []"
proof (induction ps arbitrary: m)
  case Nil
  then show ?case by simp
next
  case (Cons p ps)
  obtain k v where p: "p = (k, v)" by (cases p)
  have "AList.update k v m \<noteq> []" by simp
  from Cons.IH[OF this] show ?case by (simp add: p)
qed

lemma jsMap_eq_Nil: "jsMap ps = [] \<longleftrightarrow> ps = []"
proof (cases ps)
  case Nil
  then show ?thesis by (simp add: jsMap_def)
next
  case (Cons p qs)
  obtain k v where p: "p = (k, v)" by (cases p)
  have "foldl (\<lambda>m (k, v). AList.update k v m) (AList.update k v []) qs \<noteq> []"
    by (rule foldl_update_nonempty) simp
  then show ?thesis by (simp add: jsMap_def Cons p)
qed

lemma lf_iterate_None:
  "(\<And>v k a. fst (it v k a) = None) \<Longrightarrow>
   lf_iterate it db a = (None, foldl (\<lambda>a (k, v). snd (it v k a)) a db)"
proof (induction db arbitrary: a)
  case Nil
  then show ?case by simp
next
  case (Cons kv db)
  obtain k v where kv: "kv = (k, v)" by (cases kv)
  obtain r a' where it: "it v k a = (r, a')" by (cases "it v k a")
  with Cons.prems[of v k a] have r: "r = None" by simp
  show ?case using Cons.IH[OF Cons.prems] by (simp add: kv it r)
qed

lemma getAll_jsMap: "getAll db = jsMap db"
  by (simp add: getAll_def jsMap_def lf_iterate_None)

subsection \<open>Frame\<close>

lemma propfind_frame: "propfind pf p d w = (r, w') \<Longrightarrow> sameStores w w'"
  by (auto simp: propfind_def sameStores_def)

lemma sameStores_trans: "sameStores a b \<Longrightarrow> sameStores b c \<Longrightarrow> sameStores a c"
  by (simp add: sameStores_def)

lemma sameStores_refl: "sameStores a a"
  by (simp add: sameStores_def)

lemma statDir_frame: "statDir pf p w = (r, w') \<Longrightarrow> sameStores w w'"
  by (auto simp: statDir_def propfind_def sameStores_def split: option.splits list.splits)

lemma getSubDirs_frame: "getSubDirs pf p w = (r, w') \<Longrightarrow> sameStores w w'"
  by (auto simp: getSubDirs_def propfind_def sameStores_def split: option.splits)

lemma listDir_frame: "listDir pf p w = (r, w') \<Longrightarrow> sameStores w w'"
  by (auto simp: listDir_def propfind_def sameStores_def split: option.splits)

lemma scanDirForChanges_frame: "scanDirForChanges pf p w = (r, w') \<Longrightarrow> sameStores w w'"
  by (auto simp: scanDirForChanges_def Let_def split: prod.splits dest: listDir_frame)

lemma scanChangedDirs_frame_aux:
  "foldl (\<lambda>(chs, w) dir.
        case scanDirForChanges pf dir w of (dirChanges, w') \<Rightarrow> (chs @ dirChanges, w'))
       (acc, w) dirs = (r, w') \<Longrightarrow> sameStores w w'"
proof (induction dirs arbitrary: acc w)
  case Nil
  then show ?case by (simp add: sameStores_refl)
next
  case (Cons d dirs)
  obtain dc w1 where s: "scanDirForChanges pf d w = (dc, w1)"
    by (cases "scanDirForChanges pf d w")
  from Cons.prems have "foldl (\<lambda>(chs, w) dir.
        case scanDirForChanges pf dir w of (dirChanges, w') \<Rightarrow> (chs @ dirChanges, w'))
       (acc @ dc, w1) dirs = (r, w')"
    by (simp add: s)
  from Cons.IH[OF this] scanDirForChanges_frame[OF s] show ?case
    by (rule sameStores_trans[rotated])
qed

lemma scanChangedDirs_frame: "scanChangedDirs pf dirs w = (r, w') \<Longrightarrow> sameStores w w'"
  unfolding scanChangedDirs_def by (rule scanChangedDirs_frame_aux)

lemma forEachM_invariant:
  assumes "forEachM f xs s = Some s'" and "P s"
    and "\<And>x t t'. f x t = Some t' \<Longrightarrow> P t \<Longrightarrow> P t'"
  shows "P s'"
  using assms
proof (induction xs arbitrary: s)
  case Nil
  then show ?case by simp
next
  case (Cons x xs)
  from Cons.prems(1) obtain t where t: "f x s = Some t" and rest: "forEachM f xs t = Some s'"
    by (auto split: option.splits)
  have "P t" using Cons.prems(3)[OF t] Cons.prems(2) by simp
  with Cons.IH[OF rest] Cons.prems(3) show ?case by blast
qed

lemma detectDirChanges_frame:
  "detectDirChanges fuel pf cm d st = Some st' \<Longrightarrow>
   sameStores w0 (snd (snd st)) \<Longrightarrow> sameStores w0 (snd (snd st'))"
proof (induction fuel arbitrary: d st st')
  case 0
  then show ?case by simp
next
  case (Suc fuel)
  obtain cd sc w where st: "st = (cd, sc, w)" by (cases st)
  obtain r w1 where sd: "statDir pf d w = (r, w1)" by (cases "statDir pf d w")
  have w1: "sameStores w0 w1"
    using Suc.prems(2) statDir_frame[OF sd] by (auto simp: st intro: sameStores_trans)
  show ?case
  proof (cases r)
    case None
    with Suc.prems(1) w1 show ?thesis by (auto simp: st sd)
  next
    case (Some cur)
    show ?thesis
    proof (cases "case map_of cm d of None \<Rightarrow> False | Some cached \<Rightarrow> dm_mtime cached = cur")
      case True
      with Suc.prems(1) w1 Some show ?thesis by (auto simp: st sd)
    next
      case False
      obtain subs w2 where gs: "getSubDirs pf d w1 = (subs, w2)"
        by (cases "getSubDirs pf d w1")
      have w2: "sameStores w0 w2"
        using w1 getSubDirs_frame[OF gs] by (rule sameStores_trans)
      from Suc.prems(1) False Some
      have run: "forEachM (\<lambda>chunk. forEachM (detectDirChanges fuel pf cm) chunk)
                   (chunkArray subs concurrency) (cd @ [d], Suc sc, w2) = Some st'"
        by (simp add: st sd gs)
      show ?thesis
      proof (rule forEachM_invariant[OF run, where P = "\<lambda>s. sameStores w0 (snd (snd s))"])
        show "sameStores w0 (snd (snd (cd @ [d], Suc sc, w2)))" using w2 by simp
      next
        fix chunk t t'
        assume inner: "forEachM (detectDirChanges fuel pf cm) chunk t = Some t'"
          and P: "sameStores w0 (snd (snd t))"
        show "sameStores w0 (snd (snd t'))"
          by (rule forEachM_invariant[OF inner, where P = "\<lambda>s. sameStores w0 (snd (snd s))"])
             (rule P, rule Suc.IH)
      qed
    qed
  qed
qed



subsection \<open>Detection leaves the stores alone\<close>

text \<open>
  C8. \<^verbatim>\<open>detectChanges\<close> is non-destructive: whenever it returns, the file index, the
  directory-mtime cache and the sync-progress record are the ones it started from (only
  the log of issued requests grows).
\<close>

theorem detectChanges_frame:
  assumes "detectChanges fuel pf remoteBaseDir w = Some (r, w')"
  shows "fileIndex w' = fileIndex w \<and> dirMtimeStore w' = dirMtimeStore w \<and>
         progressStore w' = progressStore w"
proof (cases "length (getAll (dirMtimeStore w)) = 0")
  case True
  with assms show ?thesis by (simp add: detectChanges_def)
next
  case False
  with assms obtain cl sc w1 chs where
    d: "detectDirChanges fuel pf (getAll (dirMtimeStore w)) remoteBaseDir ([], 0, w)
          = Some (cl, sc, w1)"
    and s: "scanChangedDirs pf cl w1 = (chs, w')"
    by (auto simp: detectChanges_def Let_def split: option.splits prod.splits)
  from detectDirChanges_frame[OF d, of w] have "sameStores w w1"
    by (simp add: sameStores_refl)
  with scanChangedDirs_frame[OF s] have "sameStores w w'"
    by (auto intro: sameStores_trans)
  then show ?thesis by (simp add: sameStores_def)
qed

theorem detectChanges_frame_witness:
  "detectChanges 5 remoteS4removed ''/base'' worldS4 \<noteq> None \<and>
   fileIndex (snd (the (detectChanges 5 remoteS4removed ''/base'' worldS4))) = fileIndex worldS4 \<and>
   dirMtimeStore (snd (the (detectChanges 5 remoteS4removed ''/base'' worldS4)))
     = dirMtimeStore worldS4 \<and>
   progressStore (snd (the (detectChanges 5 remoteS4removed ''/base'' worldS4)))
     = progressStore worldS4"
proof -
  have ne: "detectChanges 5 remoteS4removed ''/base'' worldS4 \<noteq> None" by code_simp
  then obtain r w' where e: "detectChanges 5 remoteS4removed ''/base'' worldS4 = Some (r, w')"
    by (cases "detectChanges 5 remoteS4removed ''/base'' worldS4") auto
  from detectChanges_frame[OF e] ne e show ?thesis by simp
qed


subsection \<open>When a full scan is asked for\<close>

text \<open>
  C3, as the code has it. \<^verbatim>\<open>detectChanges\<close> asks for a full scan exactly when the
  directory-mtime cache is empty: with an empty cache it returns at once with
  \<^verbatim>\<open>needFullScan = true\<close>, and every result it returns on a non-empty cache has
  \<^verbatim>\<open>needFullScan = false\<close>, whatever the file index holds.
\<close>

theorem needFullScan_iff_cache_empty:
  "(dirMtimeStore w = [] \<longrightarrow>
      detectChanges fuel pf remoteBaseDir w
        = Some (\<lparr>dr_changes = [], dr_needFullScan = True, dr_scannedDirs = 0,
                  dr_changedDirs = 0\<rparr>, w)) \<and>
   (\<forall>r w'. detectChanges fuel pf remoteBaseDir w = Some (r, w') \<longrightarrow>
      dr_needFullScan r = (dirMtimeStore w = []))"
  by (auto simp: detectChanges_def Let_def getAll_jsMap jsMap_eq_Nil
           split: option.splits prod.splits)

theorem needFullScan_iff_cache_empty_witness:
  "dirMtimeStore emptyWorld = [] \<and>
   detectChanges 5 remoteS1 ''/base'' emptyWorld
     = Some (\<lparr>dr_changes = [], dr_needFullScan = True, dr_scannedDirs = 0,
               dr_changedDirs = 0\<rparr>, emptyWorld) \<and>
   dirMtimeStore worldS4removed \<noteq> [] \<and>
   detectChanges 5 remoteS4restored ''/base'' worldS4removed \<noteq> None \<and>
   \<not> dr_needFullScan (fst (the (detectChanges 5 remoteS4restored ''/base'' worldS4removed)))"
proof -
  have a: "dirMtimeStore emptyWorld = []" by (simp add: emptyWorld_def)
  have b: "dirMtimeStore worldS4removed \<noteq> []" by code_simp
  have ne: "detectChanges 5 remoteS4restored ''/base'' worldS4removed \<noteq> None" by code_simp
  then obtain r w' where
    e: "detectChanges 5 remoteS4restored ''/base'' worldS4removed = Some (r, w')"
    by (cases "detectChanges 5 remoteS4restored ''/base'' worldS4removed") auto
  from needFullScan_iff_cache_empty[of emptyWorld 5 remoteS1 "''/base''"] a
  have c: "detectChanges 5 remoteS1 ''/base'' emptyWorld
     = Some (\<lparr>dr_changes = [], dr_needFullScan = True, dr_scannedDirs = 0,
               dr_changedDirs = 0\<rparr>, emptyWorld)" by blast
  from needFullScan_iff_cache_empty[of worldS4removed 5 remoteS4restored "''/base''"] e b
  have "\<not> dr_needFullScan r" by blast
  with a b c ne e show ?thesis by simp
qed


text \<open>
  C3 as stated fails: after the removal of \<^verbatim>\<open>/base/sub\<close> in scenario S4 the index holds
  x, y and z whose parent is no entry (and a directory-mtime entry for \<^verbatim>\<open>/base/sub\<close>
  without a file entry). Detection against a remote where \<^verbatim>\<open>/base/sub\<close> exists again
  reads these orphans through \<^verbatim>\<open>getByParent\<close> and still answers \<^verbatim>\<open>needFullScan = false\<close>.
\<close>

theorem needFullScan_orphan_counterexample:
  "\<not> parentsOk ''/base'' (fileIndex worldS4removed) \<and>
   map_option (dr_needFullScan \<circ> fst)
     (detectChanges 5 remoteS4restored ''/base'' worldS4removed) = Some False"
  by code_simp

subsection \<open>Quiet re-scan\<close>




subsection \<open>File-level diff\<close>

lemma isModified_iff:
  "isModified c r \<longleftrightarrow>
     fe_isDir c \<noteq> st_isDir r \<or>
     (\<not> st_isDir r \<and> (fe_mtime c \<noteq> st_mtime r \<or> fe_size c \<noteq> st_size r))"
  by (auto simp: isModified_def)

lemma diffMaps_both:
  assumes d: "distinct (map fst rm)" and r: "map_of rm p = Some r" and c: "map_of cm p = Some c"
  shows "mkChange p Modified (Some r) \<in> set (diffMaps rm cm) \<longleftrightarrow> isModified c r"
    and "\<forall>ch \<in> set (diffMaps rm cm). ch_path ch = p \<longrightarrow> ch = mkChange p Modified (Some r)"
proof -
  have uniq: "\<And>r'. (p, r') \<in> set rm \<Longrightarrow> r' = r"
    using d r by (auto dest: map_of_is_SomeI)
  have mem: "(p, r) \<in> set rm" using r by (rule map_of_SomeD)
  show "mkChange p Modified (Some r) \<in> set (diffMaps rm cm) \<longleftrightarrow> isModified c r"
  proof
    assume "mkChange p Modified (Some r) \<in> set (diffMaps rm cm)"
    then show "isModified c r"
      using c by (auto simp: diffMaps_def mkChange_def split: option.splits if_splits)
  next
    assume "isModified c r"
    with mem c show "mkChange p Modified (Some r) \<in> set (diffMaps rm cm)"
      by (force simp: diffMaps_def mkChange_def)
  qed
  show "\<forall>ch \<in> set (diffMaps rm cm). ch_path ch = p \<longrightarrow> ch = mkChange p Modified (Some r)"
    using c r uniq by (auto simp: diffMaps_def mkChange_def split: option.splits if_splits)
qed

text \<open>
  On the page of cached children that \<^verbatim>\<open>scanDirForChanges\<close> reads (the first 1000
  children of the directory, one call of \<^verbatim>\<open>getByParent\<close>), the diff is as intended:
  for a path that is in the current listing (as record \<open>r\<close>) and on that page (as entry
  \<open>c\<close>), a modified change is emitted exactly when the directory flag flipped, or the
  remote record is a file whose mtime or size differs from the cached one, and no other
  change is emitted for that path.
\<close>

lemma scanDirForChanges_modified:
  assumes scan: "scanDirForChanges pf dirPath w = (chs, w')"
    and cur: "map_of (jsMap (map (\<lambda>f. (st_path f, f)) (fst (listDir pf dirPath w)))) p = Some r"
    and cac: "map_of (jsMap (map (\<lambda>f. (fe_path f, f))
                (getByParent dirPath 0 1000 (fileIndex w)))) p = Some c"
  shows "(mkChange p Modified (Some r) \<in> set chs \<longleftrightarrow>
            fe_isDir c \<noteq> st_isDir r \<or>
            (\<not> st_isDir r \<and> (fe_mtime c \<noteq> st_mtime r \<or> fe_size c \<noteq> st_size r))) \<and>
         (\<forall>ch \<in> set chs. ch_path ch = p \<longrightarrow> ch = mkChange p Modified (Some r))"
proof -
  obtain remoteFiles w1 where l: "listDir pf dirPath w = (remoteFiles, w1)"
    by (cases "listDir pf dirPath w")
  from listDir_frame[OF l] have fi: "fileIndex w1 = fileIndex w" by (simp add: sameStores_def)
  from scan have chs: "chs = diffMaps (jsMap (map (\<lambda>f. (st_path f, f)) remoteFiles))
      (jsMap (map (\<lambda>f. (fe_path f, f)) (getByParent dirPath 0 1000 (fileIndex w))))"
    by (simp add: scanDirForChanges_def l Let_def fi)
  from cur have cur': "map_of (jsMap (map (\<lambda>f. (st_path f, f)) remoteFiles)) p = Some r"
    by (simp add: l)
  from diffMaps_both[OF distinct_jsMap cur' cac] show ?thesis
    unfolding chs isModified_iff by blast
qed

lemma scanDirForChanges_modified_instance:
  "scanDirForChanges remoteS3 ''/base'' worldS1
     = ([mkChange ''/base/a.txt'' Modified (Some (fileStat ''/base/a.txt'' ''a.txt'' 200 20))],
        worldS1\<lparr>requests := requests worldS1 @ [(''/base'', Depth1)]\<rparr>) \<and>
   map_of (jsMap (map (\<lambda>f. (st_path f, f)) (fst (listDir remoteS3 ''/base'' worldS1))))
      ''/base/a.txt'' = Some (fileStat ''/base/a.txt'' ''a.txt'' 200 20) \<and>
   map_of (jsMap (map (\<lambda>f. (fe_path f, f)) (getByParent ''/base'' 0 1000 (fileIndex worldS1))))
      ''/base/a.txt'' = Some (scanEntry (fileStat ''/base/a.txt'' ''a.txt'' 100 10)) \<and>
   fe_mtime (scanEntry (fileStat ''/base/a.txt'' ''a.txt'' 100 10))
     \<noteq> st_mtime (fileStat ''/base/a.txt'' ''a.txt'' 200 20) \<and>
   mkChange ''/base/a.txt'' Modified (Some (fileStat ''/base/a.txt'' ''a.txt'' 200 20))
     \<in> set [mkChange ''/base/a.txt'' Modified (Some (fileStat ''/base/a.txt'' ''a.txt'' 200 20))]"
proof -
  have scan: "scanDirForChanges remoteS3 ''/base'' worldS1
     = ([mkChange ''/base/a.txt'' Modified (Some (fileStat ''/base/a.txt'' ''a.txt'' 200 20))],
        worldS1\<lparr>requests := requests worldS1 @ [(''/base'', Depth1)]\<rparr>)"
    by code_simp
  have cur: "map_of (jsMap (map (\<lambda>f. (st_path f, f)) (fst (listDir remoteS3 ''/base'' worldS1))))
      ''/base/a.txt'' = Some (fileStat ''/base/a.txt'' ''a.txt'' 200 20)"
    by code_simp
  have cac: "map_of (jsMap (map (\<lambda>f. (fe_path f, f))
      (getByParent ''/base'' 0 1000 (fileIndex worldS1))))
      ''/base/a.txt'' = Some (scanEntry (fileStat ''/base/a.txt'' ''a.txt'' 100 10))"
    by code_simp
  have ne: "fe_mtime (scanEntry (fileStat ''/base/a.txt'' ''a.txt'' 100 10))
     \<noteq> st_mtime (fileStat ''/base/a.txt'' ''a.txt'' 200 20)"
    by code_simp
  have nd: "\<not> st_isDir (fileStat ''/base/a.txt'' ''a.txt'' 200 20)"
    by (simp add: fileStat_def)
  from scanDirForChanges_modified[OF scan cur cac] ne nd
  have "mkChange ''/base/a.txt'' Modified (Some (fileStat ''/base/a.txt'' ''a.txt'' 200 20))
     \<in> set [mkChange ''/base/a.txt'' Modified (Some (fileStat ''/base/a.txt'' ''a.txt'' 200 20))]"
    by blast
  with scan cur cac ne show ?thesis by (intro conjI)
qed


subsection \<open>Children beyond the first page\<close>

lemma update_fresh: "k \<notin> fst ` set al \<Longrightarrow> AList.update k v al = al @ [(k, v)]"
  by (induction al) auto

lemma foldl_update_fresh:
  "distinct (map fst ps) \<Longrightarrow> fst ` set ps \<inter> fst ` set m = {} \<Longrightarrow>
   foldl (\<lambda>m (k, v). AList.update k v m) m ps = m @ ps"
proof (induction ps arbitrary: m)
  case Nil
  then show ?case by simp
next
  case (Cons p ps)
  obtain k v where p: "p = (k, v)" by (cases p)
  from Cons.prems have fresh: "k \<notin> fst ` set m" by (auto simp: p)
  have "foldl (\<lambda>m (k, v). AList.update k v m) (m @ [(k, v)]) ps = (m @ [(k, v)]) @ ps"
    using Cons.prems by (intro Cons.IH) (auto simp: p)
  then show ?case by (simp add: p update_fresh[OF fresh])
qed

lemma jsMap_distinct: "distinct (map fst ps) \<Longrightarrow> jsMap ps = ps"
  using foldl_update_fresh[of ps "[]"] by (simp add: jsMap_def)

lemma keys_foldl_update:
  "fst ` set (foldl (\<lambda>m (k, v). AList.update k v m) m ps) = fst ` set m \<union> fst ` set ps"
proof (induction ps arbitrary: m)
  case Nil
  then show ?case by simp
next
  case (Cons p ps)
  obtain k v where p: "p = (k, v)" by (cases p)
  show ?case by (simp add: p Cons.IH dom_update)
qed

lemma keys_jsMap: "fst ` set (jsMap ps) = fst ` set ps"
  by (simp add: jsMap_def keys_foldl_update)

lemma getByParent_fold:
  "foldl (\<lambda>a (k, v). snd (
       (\<lambda>value key (results, count, skipped).
          if fe_parentPath value = parentPath then
            (if skipped < 0 then (None :: unit option, (results, count, Suc skipped))
             else if count < limit then (None, (results @ [value], Suc count, skipped))
             else (None, (results, count, skipped)))
          else (None, (results, count, skipped))) v k a)) (res, length res, 0 :: nat) db
   = (res @ take (limit - length res) (filter (\<lambda>e. fe_parentPath e = parentPath) (map snd db)),
      length (res @ take (limit - length res)
                (filter (\<lambda>e. fe_parentPath e = parentPath) (map snd db))), 0)"
proof (induction db arbitrary: res)
  case Nil
  then show ?case by simp
next
  case (Cons kv db)
  obtain k v where kv: "kv = (k, v)" by (cases kv)
  show ?case
  proof (cases "fe_parentPath v = parentPath \<and> length res < limit")
    case True
    have "limit - length res = Suc (limit - length (res @ [v]))" using True by (simp add: Suc_diff_Suc)
    then show ?thesis using True Cons.IH[of "res @ [v]"] by (simp add: kv)
  next
    case False
    then show ?thesis using Cons.IH[of res] by (auto simp: kv)
  qed
qed

lemma getByParent_take:
  "getByParent parentPath 0 limit db
     = take limit (filter (\<lambda>e. fe_parentPath e = parentPath) (map snd db))"
proof -
  have "getByParent parentPath 0 limit db = fst (foldl (\<lambda>a (k, v). snd (
       (\<lambda>value key (results, count, skipped).
          if fe_parentPath value = parentPath then
            (if skipped < 0 then (None :: unit option, (results, count, Suc skipped))
             else if count < limit then (None, (results @ [value], Suc count, skipped))
             else (None, (results, count, skipped)))
          else (None, (results, count, skipped))) v k a)) ([], 0, 0 :: nat) db)"
    unfolding getByParent_def
    by (subst lf_iterate_None) (auto split: prod.splits)
  also have "\<dots> = take limit (filter (\<lambda>e. fe_parentPath e = parentPath) (map snd db))"
    using getByParent_fold[of parentPath limit "[]" db] by simp
  finally show ?thesis .
qed


lemma dirname_bigPath: "dirname (bigPath n) = ''/big''"
proof -
  have "dropWhile (\<lambda>c. c \<noteq> CHR ''/'') (replicate (Suc n) (CHR ''a'') @ ''/gib'') = ''/gib''"
    by (induction n) simp_all
  then show ?thesis
    by (simp add: dirname_def bigPath_def bigName_def Let_def del: replicate.simps)
qed

lemma bigPath_inj: "bigPath m = bigPath n \<longleftrightarrow> m = n"
proof
  assume "bigPath m = bigPath n"
  then have "length (bigPath m) = length (bigPath n)" by simp
  then show "m = n" by (simp add: bigPath_def bigName_def)
qed simp

lemma bigPath_not_dir: "bigPath n \<noteq> ''/big''"
proof
  assume "bigPath n = ''/big''"
  then have "length (bigPath n) = length ''/big''" by simp
  then show False by (simp add: bigPath_def bigName_def)
qed

lemma st_bigStat [simp]:
  "st_path (bigStat m n) = bigPath n" "st_isDir (bigStat m n) = False"
  "st_mtime (bigStat m n) = m" "st_size (bigStat m n) = 10"
  by (simp_all add: bigStat_def fileStat_def)

lemma fe_scanEntry_bigStat [simp]:
  "fe_path (scanEntry (bigStat m n)) = bigPath n"
  "fe_parentPath (scanEntry (bigStat m n)) = ''/big''"
  "fe_isDir (scanEntry (bigStat m n)) = False"
  "fe_mtime (scanEntry (bigStat m n)) = m"
  "fe_size (scanEntry (bigStat m n)) = 10"
  by (simp_all add: scanEntry_def dirname_bigPath orZero_def)

lemma distinct_bigPath: "distinct (map bigPath [0..<n])"
  by (simp add: distinct_map inj_on_def bigPath_inj)


lemma upt_1001: "[0..<1000] @ [1000] = [0..<1001::nat]"
proof -
  have "[0..<Suc 1000] = [0..<1000] @ [1000::nat]" by (rule upt_Suc_append) simp
  then show ?thesis by simp
qed

lemma remoteBig_listing:
  "remoteBig 100 ''/big'' Depth1 = Some (dirStat ''/big'' ''big'' 50 # map (bigStat 100) [0..<1001])"
proof -
  have "map (bigStat 100) [0..<1001] = map (bigStat 100) [0..<1000] @ [bigStat 100 1000]"
    by (simp only: map_append list.map flip: upt_1001)
  then show ?thesis by (simp add: remoteBig_def)
qed

lemma batchSet_fresh:
  "distinct (map fe_path es) \<Longrightarrow> batchSet es [] = map (\<lambda>e. (fe_path e, e)) es"
proof -
  assume d: "distinct (map fe_path es)"
  have "foldl (\<lambda>db entry. setItem (fe_path entry) entry db) db0 es
        = foldl (\<lambda>m (k, v). AList.update k v m) db0 (map (\<lambda>e. (fe_path e, e)) es)" for db0
    by (induction es arbitrary: db0) (simp_all add: setItem_def)
  then show ?thesis
    using foldl_update_fresh[of "map (\<lambda>e. (fe_path e, e)) es" "[]"] d
    by (simp add: batchSet_foldl comp_def)
qed

lemma fullScan_big:
  "fullScan (Suc fuel) (remoteBig 100) ''/big'' now w
     = Ok ((1001, 0),
           w\<lparr>fileIndex := bigIndex,
             dirMtimeStore := [(''/big'', \<lparr>dm_path = ''/big'', dm_mtime = 50,
                                            dm_lastChecked = now, dm_childCount = 1001\<rparr>)],
             requests := requests w @ [(''/big'', Depth1)]\<rparr>)"
proof -
  let ?items = "map (bigStat 100) [0..<1001]"
  have f1: "filter (\<lambda>c. st_path c \<noteq> ''/big'') ?items = ?items"
    by (simp add: filter_id_conv bigPath_not_dir)
  have f2: "filter (\<lambda>item. st_isDir item) ?items = []"
    by (simp add: filter_empty_conv)
  have f3: "filter (\<lambda>e. \<not> st_isDir e) ?items = ?items"
    by (simp add: filter_id_conv)
  have b: "batchSet (map (scanEntry \<circ> bigStat 100) [0..<1001]) [] = bigIndex"
    using batchSet_fresh[of "map (scanEntry \<circ> bigStat 100) [0..<1001]"] distinct_bigPath[of 1001]
    by (simp add: comp_def bigIndex_def)
  show ?thesis
    by (simp add: fullScan_def fullScanBatch_def propfind_def remoteBig_listing
          dirBatchSet_def setItem_def dirStat_def orZero_def f1 f2 f3 b
          del: upt_Suc)
qed

lemma fileIndex_worldBig: "fileIndex worldBig = bigIndex"
proof -
  have "fullScan 5 (remoteBig 100) ''/big'' 1000 w
     = Ok ((1001, 0),
           w\<lparr>fileIndex := bigIndex,
             dirMtimeStore := [(''/big'', \<lparr>dm_path = ''/big'', dm_mtime = 50,
                                            dm_lastChecked = 1000, dm_childCount = 1001\<rparr>)],
             requests := requests w @ [(''/big'', Depth1)]\<rparr>)" for w
    using fullScan_big[of 4 1000 w] by simp
  then show ?thesis
    by (simp add: worldBig_def walk_def count_def emptyWorld_def fsFullScan_def
          worldOf_def Let_def)
qed


lemma diffMaps_added:
  "(p, r) \<in> set rm \<Longrightarrow> map_of cm p = None \<Longrightarrow>
   mkChange p Added (Some r) \<in> set (diffMaps rm cm)"
  by (force simp: diffMaps_def)

lemma diffMaps_modified_cached:
  "ch \<in> set (diffMaps rm cm) \<Longrightarrow> ch_type ch = Modified \<Longrightarrow> map_of cm (ch_path ch) \<noteq> None"
  by (auto simp: diffMaps_def mkChange_def split: option.splits if_splits)

lemma listDir_big:
  "fst (listDir (remoteBig m) ''/big'' w) = map (bigStat 100) [0..<1000] @ [bigStat m 1000]"
  by (simp add: listDir_def propfind_def remoteBig_def dirStat_def filter_id_conv bigPath_not_dir)

lemma remoteMap_big:
  "jsMap (map (\<lambda>f. (st_path f, f)) (map (bigStat 100) [0..<1000] @ [bigStat m 1000]))
     = map (\<lambda>f. (st_path f, f)) (map (bigStat 100) [0..<1000] @ [bigStat m 1000])"
proof (rule jsMap_distinct)
  have "map fst (map (\<lambda>f. (st_path f, f)) (map (bigStat 100) [0..<1000] @ [bigStat m 1000]))
          = map bigPath ([0..<1000] @ [1000])"
    by (simp add: comp_def)
  also have "\<dots> = map bigPath [0..<1001]" by (simp only: upt_1001)
  finally show "distinct (map fst (map (\<lambda>f. (st_path f, f))
                  (map (bigStat 100) [0..<1000] @ [bigStat m 1000])))"
    by (simp only: distinct_bigPath)
qed

lemma cached_big:
  "getByParent ''/big'' 0 1000 bigIndex = map (scanEntry \<circ> bigStat 100) [0..<1000]"
proof -
  have "filter (\<lambda>e. fe_parentPath e = ''/big'') (map snd bigIndex)
          = map (scanEntry \<circ> bigStat 100) [0..<1001]"
    by (simp add: bigIndex_def comp_def filter_id_conv)
  moreover have "take 1000 [0..<1001::nat] = [0..<1000]" by (simp add: take_upt)
  ultimately show ?thesis by (simp add: getByParent_take take_map)
qed

lemma cachedMap_big_miss:
  "map_of (jsMap (map (\<lambda>f. (fe_path f, f)) (getByParent ''/big'' 0 1000 bigIndex)))
     (bigPath 1000) = None"
proof -
  have "bigPath 1000 \<notin> fst ` set (jsMap (map (\<lambda>f. (fe_path f, f))
           (getByParent ''/big'' 0 1000 bigIndex)))"
    by (auto simp: keys_jsMap cached_big bigPath_inj)
  then show ?thesis by (simp add: map_of_eq_None_iff)
qed

lemma getItem_bigIndex: "getItem (bigPath 1000) bigIndex = Some (scanEntry (bigStat 100 1000))"
proof -
  have "distinct (map fst bigIndex)"
    using distinct_bigPath[of 1001] by (simp add: bigIndex_def comp_def)
  moreover have "(bigPath 1000, scanEntry (bigStat 100 1000)) \<in> set bigIndex"
    unfolding bigIndex_def set_map by (rule image_eqI[where x = 1000]) simp_all
  ultimately show ?thesis unfolding getItem_def by (rule map_of_is_SomeI)
qed

lemma scan_big:
  "fst (scanDirForChanges (remoteBig m) ''/big'' worldBig)
     = diffMaps (map (\<lambda>f. (st_path f, f)) (map (bigStat 100) [0..<1000] @ [bigStat m 1000]))
         (jsMap (map (\<lambda>f. (fe_path f, f)) (getByParent ''/big'' 0 1000 bigIndex)))"
proof -
  obtain fs w1 where l: "listDir (remoteBig m) ''/big'' worldBig = (fs, w1)"
    by (cases "listDir (remoteBig m) ''/big'' worldBig")
  from listDir_frame[OF l] have fi: "fileIndex w1 = bigIndex"
    by (simp add: sameStores_def fileIndex_worldBig)
  from l listDir_big[of m worldBig]
  have fs: "fs = map (bigStat 100) [0..<1000] @ [bigStat m 1000]" by simp
  show ?thesis
    by (simp only: scanDirForChanges_def l prod.case Let_def fst_conv fi fs remoteMap_big)
qed

text \<open>
  C7, at a directory with 1001 indexed children. \<^verbatim>\<open>scanDirForChanges\<close> reads the cached
  listing with one call of \<^verbatim>\<open>getByParent\<close>, which returns at most 1000 entries. The
  1001st child is in the index and in the current listing; when nothing about it changed
  it is emitted as added although its tuple is the same, and when its mtime changed it is
  emitted as added and not as modified.
\<close>

theorem scanDirForChanges_beyond_first_page:
  "getItem (bigPath 1000) (fileIndex worldBig) = Some (scanEntry (bigStat 100 1000)) \<and>
   map_of (jsMap (map (\<lambda>f. (st_path f, f)) (fst (listDir (remoteBig 100) ''/big'' worldBig))))
     (bigPath 1000) = Some (bigStat 100 1000) \<and>
   \<not> isModified (scanEntry (bigStat 100 1000)) (bigStat 100 1000) \<and>
   mkChange (bigPath 1000) Added (Some (bigStat 100 1000))
     \<in> set (fst (scanDirForChanges (remoteBig 100) ''/big'' worldBig)) \<and>
   isModified (scanEntry (bigStat 100 1000)) (bigStat 200 1000) \<and>
   mkChange (bigPath 1000) Added (Some (bigStat 200 1000))
     \<in> set (fst (scanDirForChanges (remoteBig 200) ''/big'' worldBig)) \<and>
   mkChange (bigPath 1000) Modified (Some (bigStat 200 1000))
     \<notin> set (fst (scanDirForChanges (remoteBig 200) ''/big'' worldBig))"
proof -
  have mem: "(bigPath 1000, bigStat m 1000)
       \<in> set (map (\<lambda>f. (st_path f, f)) (map (bigStat 100) [0..<1000] @ [bigStat m 1000]))" for m
    by simp
  have added: "mkChange (bigPath 1000) Added (Some (bigStat m 1000))
       \<in> set (fst (scanDirForChanges (remoteBig m) ''/big'' worldBig))" for m
    unfolding scan_big by (rule diffMaps_added[OF mem cachedMap_big_miss])
  have nomod: "mkChange (bigPath 1000) Modified (Some (bigStat 200 1000))
       \<notin> set (fst (scanDirForChanges (remoteBig 200) ''/big'' worldBig))"
  proof
    assume "mkChange (bigPath 1000) Modified (Some (bigStat 200 1000))
       \<in> set (fst (scanDirForChanges (remoteBig 200) ''/big'' worldBig))"
    then have "map_of (jsMap (map (\<lambda>f. (fe_path f, f)) (getByParent ''/big'' 0 1000 bigIndex)))
        (ch_path (mkChange (bigPath 1000) Modified (Some (bigStat 200 1000)))) \<noteq> None"
      unfolding scan_big by (rule diffMaps_modified_cached) (simp add: mkChange_def)
    then show False by (simp add: mkChange_def cachedMap_big_miss)
  qed
  have cur: "map_of (jsMap (map (\<lambda>f. (st_path f, f))
       (fst (listDir (remoteBig 100) ''/big'' worldBig)))) (bigPath 1000) = Some (bigStat 100 1000)"
  proof -
    have "distinct (map fst (jsMap (map (\<lambda>f. (st_path f, f))
        (map (bigStat 100) [0..<1000] @ [bigStat 100 1000]))))"
      by (rule distinct_jsMap)
    moreover have "(bigPath 1000, bigStat 100 1000)
        \<in> set (jsMap (map (\<lambda>f. (st_path f, f)) (map (bigStat 100) [0..<1000] @ [bigStat 100 1000])))"
      unfolding remoteMap_big by (rule mem)
    ultimately show ?thesis unfolding listDir_big by (rule map_of_is_SomeI)
  qed
  have m1: "\<not> isModified (scanEntry (bigStat 100 1000)) (bigStat 100 1000)"
    by (simp add: isModified_def)
  have m2: "isModified (scanEntry (bigStat 100 1000)) (bigStat 200 1000)"
    by (simp add: isModified_def)
  from getItem_bigIndex cur m1 added[of 100] m2 added[of 200] nomod
  show ?thesis by (simp only: fileIndex_worldBig simp_thms)
qed


subsection \<open>Iterating over the index\<close>

text \<open>What \<^verbatim>\<open>iterateAll\<close> computes: the iterator's promise ends the iteration after the first
  entry, whatever the callback answered.\<close>

lemma iterateAll_first:
  "iterateAll callback db a = (case db of [] \<Rightarrow> a | (k, v) # rest \<Rightarrow> snd (callback v a))"
  by (cases db) (auto simp: iterateAll_def split: prod.splits)

lemma iterateAll_visits:
  "map fst (fst (iterateAll (logged callback) db ([], a))) = take 1 (map snd db)"
  by (cases db) (auto simp: iterateAll_first logged_def split: prod.splits)

text \<open>
  C9, at scenario S4. The index holds four entries and the callback answers \<^verbatim>\<open>true\<close>
  (go on) on every entry, yet \<^verbatim>\<open>iterateAll\<close> calls it on \<^verbatim>\<open>/base/sub\<close> only: the entries
  x, y and z are never visited, and the listing \<^verbatim>\<open>getFromIndex\<close> builds through
  \<^verbatim>\<open>iterateAll\<close> has the single path \<^verbatim>\<open>sub\<close>. The iteration ends after the first entry
  whatever the callback answers (lemma \<open>iterateAll_visits\<close>), not when it answers
  \<^verbatim>\<open>false\<close>.
\<close>

theorem iterateAll_visits_first_entry_only:
  "map fst (fileIndex worldS4)
     = [''/base/sub'', ''/base/sub/x'', ''/base/sub/y'', ''/base/sub/z''] \<and>
   map (\<lambda>v. (fe_path (fst v), snd v))
     (fst (iterateAll (logged (\<lambda>e a. (Continue, a))) (fileIndex worldS4) ([], ())))
     = [(''/base/sub'', Continue)] \<and>
   map st_path (getFromIndex plainExt ''/base'' worldS4) = [''sub'']"
  by code_simp

subsection \<open>Scenario S1: bootstrap of an empty namespace\<close>

lemma dirname_a: "dirname ''/base/a.txt'' = ''/base''"
  by code_simp

lemma fullScan_S1:
  "fullScan (Suc fuel) remoteS1 ''/base'' now w
     = Ok ((1, 0),
           w\<lparr>fileIndex := [(''/base/a.txt'', scanEntry (fileStat ''/base/a.txt'' ''a.txt'' 100 10))],
             dirMtimeStore := [(''/base'', \<lparr>dm_path = ''/base'', dm_mtime = 50,
                                             dm_lastChecked = now, dm_childCount = 1\<rparr>)],
             requests := requests w @ [(''/base'', Depth1)]\<rparr>)"
  by (simp add: fullScan_def fullScanBatch_def propfind_def remoteS1_def batchSet_foldl
        dirBatchSet_def setItem_def fileStat_def dirStat_def orZero_def scanEntry_def dirname_a)

text \<open>
  C5, amended. On a fresh namespace with the remote tree of S1, and helpers that leave
  \<^verbatim>\<open>/base/a.txt\<close> undecoded, place it under the base, include \<^verbatim>\<open>a.txt\<close> and add no
  directory, \<^verbatim>\<open>walk\<close> returns the listing made of \<^verbatim>\<open>a.txt\<close>, and the index statistics
  afterwards are one file, no directory, \<^verbatim>\<open>hasIndex = true\<close>: the base directory is not
  an entry of the index.
\<close>

theorem walk_S1:
  assumes "decodeHtmlEntity ext ''/base/a.txt'' = ''/base/a.txt''"
    and "isSub ext (stdRemotePath ext ''/base'') ''/base/a.txt''"
    and "needInclude ext ''a.txt''"
    and "completeLossDir ext [fileStat ''a.txt'' ''a.txt'' 100 10]
           [fileStat ''a.txt'' ''a.txt'' 100 10] = [fileStat ''a.txt'' ''a.txt'' 100 10]"
  shows "listingOf (walk (Suc fuel) ext remoteS1 ''/base'' now emptyWorld)
           = Some [fileStat ''a.txt'' ''a.txt'' 100 10] \<and>
         getIndexStats (worldOf (walk (Suc fuel) ext remoteS1 ''/base'' now emptyWorld))
           = (1, 0, True)"
proof -
  let ?w = "emptyWorld\<lparr>fileIndex := [(''/base/a.txt'', scanEntry (fileStat ''/base/a.txt'' ''a.txt'' 100 10))],
             dirMtimeStore := [(''/base'', \<lparr>dm_path = ''/base'', dm_mtime = 50,
                                             dm_lastChecked = now, dm_childCount = 1\<rparr>)],
             progressStore := None,
             requests := [(''/base'', Depth1)]\<rparr>"
  have cb: "indexCallback ext ''/base'' (scanEntry (fileStat ''/base/a.txt'' ''a.txt'' 100 10)) []
          = (Continue, [fileStat ''a.txt'' ''a.txt'' 100 10])"
    using assms(1,2)
    by (simp add: indexCallback_def scanEntry_def fileStat_def endsWith_def startsWith_def
          orZero_def Let_def)
  have g: "getFromIndex ext ''/base'' ?w = [fileStat ''a.txt'' ''a.txt'' 100 10]"
  proof -
    have sp: "st_path (fileStat ''a.txt'' ''a.txt'' 100 10) = ''a.txt''"
      by (simp add: fileStat_def)
    show ?thesis
      using assms(3,4) by (simp add: getFromIndex_def iterateAll_first cb sp Let_def)
  qed
  have w: "walk (Suc fuel) ext remoteS1 ''/base'' now emptyWorld
             = Ok ([fileStat ''a.txt'' ''a.txt'' 100 10], ?w)"
    using g
    by (simp add: walk_def count_def fsFullScan_def fullScan_S1 Let_def emptyWorld_def)
  have s: "getIndexStats ?w = (1, 0, True)"
    by (simp add: getIndexStats_def getStats_def count_def getAllDirs_def scanEntry_def
          fileStat_def Let_def)
  from w s show ?thesis by (simp add: listingOf_def worldOf_def)
qed

theorem walk_S1_witness:
  "decodeHtmlEntity plainExt ''/base/a.txt'' = ''/base/a.txt'' \<and>
   isSub plainExt (stdRemotePath plainExt ''/base'') ''/base/a.txt'' \<and>
   needInclude plainExt ''a.txt'' \<and>
   completeLossDir plainExt [fileStat ''a.txt'' ''a.txt'' 100 10]
     [fileStat ''a.txt'' ''a.txt'' 100 10] = [fileStat ''a.txt'' ''a.txt'' 100 10] \<and>
   listingOf (walk (Suc 4) plainExt remoteS1 ''/base'' 1000 emptyWorld)
     = Some [fileStat ''a.txt'' ''a.txt'' 100 10] \<and>
   getIndexStats (worldOf (walk (Suc 4) plainExt remoteS1 ''/base'' 1000 emptyWorld))
     = (1, 0, True)"
proof -
  have h1: "decodeHtmlEntity plainExt ''/base/a.txt'' = ''/base/a.txt''" by code_simp
  have h2: "isSub plainExt (stdRemotePath plainExt ''/base'') ''/base/a.txt''" by code_simp
  have h3: "needInclude plainExt ''a.txt''" by code_simp
  have h4: "completeLossDir plainExt [fileStat ''a.txt'' ''a.txt'' 100 10]
     [fileStat ''a.txt'' ''a.txt'' 100 10] = [fileStat ''a.txt'' ''a.txt'' 100 10]" by code_simp
  from walk_S1[OF h1 h2 h3 h4, of 4 1000] h1 h2 h3 h4 show ?thesis by (intro conjI) simp_all
qed


text \<open>C5 as stated fails on the directory count, which is 0 and not 1.\<close>

theorem getIndexStats_S1_counterexample:
  "listingOf (walk 5 plainExt remoteS1 ''/base'' 1000 emptyWorld)
     = Some [fileStat ''a.txt'' ''a.txt'' 100 10] \<and>
   getIndexStats worldS1 = (1, 0, True) \<and>
   getIndexStats worldS1 \<noteq> (1, 1, True)"
  by code_simp

subsection \<open>Scenario S4: removal of a nested tree\<close>

text \<open>
  C1, at the scenario. After the index was populated with \<^verbatim>\<open>/base/sub\<close> and its files
  x, y, z and the whole of \<^verbatim>\<open>/base/sub\<close> was removed, detection reports one change only,
  the deletion of \<^verbatim>\<open>/base/sub\<close>: the removed directory is no longer among the
  sub-directories the remote lists, so it is not scanned and its children are not compared.
  The walk leaves x, y and z in the index, and the next detection reports nothing.
\<close>

theorem S4_removal_reports_only_sub:
  "map fst (fileIndex worldS4)
     = [''/base/sub'', ''/base/sub/x'', ''/base/sub/y'', ''/base/sub/z''] \<and>
   map_option (dr_changes \<circ> fst) (detectChanges 5 remoteS4removed ''/base'' worldS4)
     = Some [mkChange ''/base/sub'' Deleted None] \<and>
   listingOf (walk 5 plainExt remoteS4removed ''/base'' 2000 worldS4) \<noteq> None \<and>
   map fst (fileIndex worldS4removed) = [''/base/sub/x'', ''/base/sub/y'', ''/base/sub/z''] \<and>
   map_option (dr_changes \<circ> fst)
     (detectChanges 5 remoteS4removed ''/base'' worldS4removed) = Some []"
  by code_simp

text \<open>
  C4, at the scenario. The index a full scan builds for S4 satisfies the parent invariant;
  applying the change list the detector produces after the removal of \<^verbatim>\<open>/base/sub\<close>
  breaks it: x, y and z keep the parent path \<^verbatim>\<open>/base/sub\<close>, which is no entry any more.
\<close>

theorem S4_removal_breaks_parent_invariant:
  "parentsOk ''/base'' (fileIndex worldS4) \<and>
   (case detectChanges 5 remoteS4removed ''/base'' worldS4 of
      Some (r, w) \<Rightarrow>
        \<not> parentsOk ''/base'' (fileIndex (updateFileIndex 2000 (dr_changes r) w))
    | None \<Rightarrow> False)"
  by code_simp

subsection \<open>Time stamps of written records\<close>

lemma collectChange_stamps:
  "\<forall>e \<in> set (fst acc). fe_lastSynced e = now \<Longrightarrow>
   \<forall>e \<in> set (fst (foldl (collectChange now) acc chs)). fe_lastSynced e = now"
proof (induction chs arbitrary: acc)
  case Nil
  then show ?case by simp
next
  case (Cons c chs)
  have "\<forall>e \<in> set (fst (collectChange now acc c)). fe_lastSynced e = now"
    using Cons.prems
    by (cases acc) (auto simp: collectChange_def changeEntry_def split: option.splits)
  from Cons.IH[OF this] show ?case by simp
qed

lemma updateFileIndex_stamps_now:
  "\<forall>e \<in> set (fst (foldl (collectChange now) ([], []) chs)). fe_lastSynced e = now"
  by (rule collectChange_stamps) simp

text \<open>
  C6, at scenario S1. Every record \<^verbatim>\<open>updateFileIndex\<close> writes is stamped with the time of
  the write (lemma \<open>updateFileIndex_stamps_now\<close>), but a full scan run at time 1000 writes
  the record of \<^verbatim>\<open>/base/a.txt\<close> with \<^verbatim>\<open>lastSynced = 0\<close>.
\<close>

theorem fullScan_lastSynced_zero:
  "(case fullScan 5 remoteS1 ''/base'' 1000 emptyWorld of
      Ok (res, w) \<Rightarrow>
        map (\<lambda>(k, e). (k, fe_lastSynced e)) (fileIndex w) = [(''/base/a.txt'', 0)]
    | _ \<Rightarrow> False)"
  by code_simp


section \<open>Detection after a walk, on an unchanged remote\<close>

subsection \<open>The remote answers do not depend on the world\<close>







subsection \<open>Two traversals of the same remote\<close>








subsection \<open>Where the changes of a scan live\<close>




subsection \<open>What applying the changes does to the stores\<close>















subsection \<open>What a full scan leaves behind\<close>







subsection \<open>Requests issued by a detection\<close>






subsection \<open>Worlds produced by walks\<close>










text \<open>
  Well-formedness is needed. With the base directory configured as \<^verbatim>\<open>/base/\<close> the
  listing of the base holds \<^verbatim>\<open>/base\<close> and \<^verbatim>\<open>/base/a.txt\<close>, whose parent paths are not
  \<^verbatim>\<open>/base/\<close>; the index never holds children of \<^verbatim>\<open>/base/\<close>, and every detection after
  a walk reports both entries as added.
\<close>

lemma detectChanges_not_quiet_trailing_slash:
  "map (\<lambda>ch. (ch_path ch, ch_type ch))
     (dr_changes (fst (the (detectChanges 5 remoteSlash ''/base/''
        (worldOf (walk 5 plainExt remoteSlash ''/base/'' 2000 worldSlash))))))
     = [(''/base'', Added), (''/base/a.txt'', Added)]"
  by code_simp

end
